theory Spec2Isabelle
  imports Main "HOL-Library.Word"
begin

section \<open>Strings, numbers and paths\<close>

text \<open>
  The service is written in Python. File contents are \<open>bytes\<close>; names, messages and
  paths are \<open>str\<close>. Timestamps (\<open>datetime\<close> values and \<open>st_mtime\<close>) are modelled as
  integers counting microseconds, the resolution of \<open>datetime\<close>.
\<close>

type_synonym bytes = "8 word list"

definition digit_char :: "nat \<Rightarrow> char" where
  "digit_char d = ''0123456789'' ! d"

function str_of_nat :: "nat \<Rightarrow> string" where
  "str_of_nat n = (if n < 10 then [digit_char n] else str_of_nat (n div 10) @ [digit_char (n mod 10)])"
  by pat_completeness auto
termination
  by (relation "measure id") auto

text \<open>\<open>str(i)\<close> for a Python \<open>int\<close>, as an f-string renders it.\<close>

definition str_of_int :: "int \<Rightarrow> string" where
  "str_of_int i = (if i < 0 then CHR ''-'' # str_of_nat (nat (- i)) else str_of_nat (nat i))"

text \<open>\<open>str.lower()\<close> on the ASCII letters; every other character is left as it is.\<close>

definition lower_char :: "char \<Rightarrow> char" where
  "lower_char c =
     (case map_of (zip ''ABCDEFGHIJKLMNOPQRSTUVWXYZ'' ''abcdefghijklmnopqrstuvwxyz'') c of
        Some d \<Rightarrow> d
      | None \<Rightarrow> c)"

definition lower :: "string \<Rightarrow> string" where
  "lower s = map lower_char s"

text \<open>
  \<open>pathlib\<close> on a POSIX system, as CPython 3.8 to 3.13 implements it. A path string is
  split at \<open>/\<close>; empty components and \<open>.\<close> components are dropped; \<open>Path(p).name\<close> is
  the last component left, or the empty string.
\<close>

fun split_sep :: "string \<Rightarrow> string list" where
  "split_sep [] = [[]]"
| "split_sep (c # cs) =
     (if c = CHR ''/'' then [] # split_sep cs
      else (case split_sep cs of
              [] \<Rightarrow> [[c]]
            | p # ps \<Rightarrow> (c # p) # ps))"

definition path_name :: "string \<Rightarrow> string" where
  "path_name p =
     (case filter (\<lambda>x. x \<noteq> [] \<and> x \<noteq> ''.'') (split_sep p) of
        [] \<Rightarrow> []
      | q # qs \<Rightarrow> last (q # qs))"

text \<open>\<open>s.rfind(c)\<close>: the index of the last occurrence, \<open>None\<close> for Python's \<open>-1\<close>.\<close>

definition rfind :: "char \<Rightarrow> string \<Rightarrow> nat option" where
  "rfind c s =
     (let t = takeWhile (\<lambda>x. x \<noteq> c) (rev s)
      in if length t = length s then None else Some (length s - Suc (length t)))"

text \<open>
  \<open>PurePath.suffix\<close> and \<open>PurePath.stem\<close>:
  \<^verbatim>\<open>i = name.rfind('.'); if 0 < i < len(name) - 1: name[i:] / name[:i] else '' / name\<close>.
\<close>

definition name_suffix :: "string \<Rightarrow> string" where
  "name_suffix nm =
     (case rfind CHR ''.'' nm of
        None \<Rightarrow> []
      | Some i \<Rightarrow> if 0 < i \<and> int i < int (length nm) - 1 then drop i nm else [])"

definition name_stem :: "string \<Rightarrow> string" where
  "name_stem nm =
     (case rfind CHR ''.'' nm of
        None \<Rightarrow> nm
      | Some i \<Rightarrow> if 0 < i \<and> int i < int (length nm) - 1 then take i nm else nm)"

definition path_suffix :: "string \<Rightarrow> string" where
  "path_suffix p = name_suffix (path_name p)"

definition path_stem :: "string \<Rightarrow> string" where
  "path_stem p = name_stem (path_name p)"

text \<open>\<open>directory / name\<close> rendered with \<open>str\<close>, for a plain file name.\<close>

definition path_join :: "string \<Rightarrow> string \<Rightarrow> string" where
  "path_join d nm = d @ ''/'' @ nm"

text \<open>
  \<open>str(uuid.uuid4())\<close> is 36 characters, hexadecimal digits and hyphens. The random draw
  is an input of the model; this predicate says what such a string looks like.
\<close>

definition uuid_str :: "string \<Rightarrow> bool" where
  "uuid_str u = (length u = 36 \<and> list_all (\<lambda>c. c \<in> set ''0123456789abcdef-'') u)"

section \<open>Configuration (config.py)\<close>

text \<open>
  The options of \<open>Config\<close> that the modelled code reads (the API key, the host and the
  log level are left out), and \<open>Config.validate\<close>, which the startup handler requires to
  hold.
\<close>

record config =
  PORT :: int
  UPLOAD_DIR :: string
  OUTPUT_DIR :: string
  ENABLE_CLEANUP :: bool
  CLEANUP_INTERVAL_MINUTES :: int
  FILE_EXPIRE_HOURS :: int
  SOFFICE_PATH :: string
  CONVERSION_TIMEOUT :: int

text \<open>The defaults of \<open>Config\<close> when no environment variable is set.\<close>

definition default_config :: config where
  "default_config =
     \<lparr> PORT = 8000, UPLOAD_DIR = ''uploads'', OUTPUT_DIR = ''outputs'', ENABLE_CLEANUP = True,
       CLEANUP_INTERVAL_MINUTES = 30, FILE_EXPIRE_HOURS = 1, SOFFICE_PATH = ''soffice'',
       CONVERSION_TIMEOUT = 300 \<rparr>"


section \<open>The file system and the clock\<close>

text \<open>
  A directory entry carries what the code observes of it: what \<open>is_file()\<close> returns
  (\<open>None\<close> when \<open>is_file()\<close> raises, as it does on an error other than a missing or
  dangling path), the \<open>st_mtime\<close> that \<open>stat()\<close> returns (\<open>None\<close> when \<open>stat()\<close> raises),
  whether \<open>unlink()\<close> succeeds, and the content. A staging area is a flat directory: it
  is missing, or it exists and \<open>iterdir()\<close> either lists its entries in some order or
  raises.
\<close>

record entry =
  is_file :: "bool option"
  st_mtime :: "int option"
  deletable :: bool
  content :: bytes

datatype area = Missing | Dir (listable: bool) (entries: "(string \<times> entry) list")

record world =
  uploads :: area
  outputs :: area
  now :: int
  launched :: "string list list"

text \<open>A regular file created at time \<open>t\<close>.\<close>

definition new_file :: "int \<Rightarrow> bytes \<Rightarrow> entry" where
  "new_file t bs = \<lparr> is_file = Some True, st_mtime = Some t, deletable = True, content = bs \<rparr>"

text \<open>Whether the area holds an entry of that name.\<close>

definition path_exists :: "area \<Rightarrow> string \<Rightarrow> bool" where
  "path_exists a nm = (case a of Missing \<Rightarrow> False | Dir l es \<Rightarrow> nm \<in> fst ` set es)"

text \<open>Creating or truncating a file replaces an entry of the same name.\<close>

definition put_file :: "string \<Rightarrow> entry \<Rightarrow> area \<Rightarrow> area" where
  "put_file nm e a =
     (case a of
        Missing \<Rightarrow> Missing
      | Dir l es \<Rightarrow> Dir l (filter (\<lambda>(n, x). n \<noteq> nm) es @ [(nm, e)]))"

fun put_files :: "int \<Rightarrow> string list \<Rightarrow> area \<Rightarrow> area" where
  "put_files t [] a = a"
| "put_files t (nm # nms) a = put_files t nms (put_file nm (new_file t []) a)"

section \<open>Exceptions\<close>

text \<open>
  The exceptions the code distinguishes, each with the text \<open>str(e)\<close> gives. All of them
  are subclasses of \<open>Exception\<close>. \<open>TimeoutExpired\<close> is the one of \<open>subprocess\<close>,
  \<open>TimeoutError\<close> the one of \<open>asyncio\<close>; \<open>KeyError\<close> carries the missing key.
  What is not an \<open>Exception\<close> (a keyboard interrupt, the cancellation of a task) is
  caught by none of the handlers below and is not modelled.
\<close>

datatype py_exception =
    FileNotFoundError string
  | TimeoutExpired string
  | TimeoutError string
  | KeyError string
  | OtherException string

fun str_exc :: "py_exception \<Rightarrow> string" where
  "str_exc (FileNotFoundError m) = m"
| "str_exc (TimeoutExpired m) = m"
| "str_exc (TimeoutError m) = m"
| "str_exc (KeyError k) = [CHR 0x27] @ k @ [CHR 0x27]"
| "str_exc (OtherException m) = m"

section \<open>The conversion invoker (converter.py)\<close>

text \<open>
  What the environment decides in one conversion attempt: the identifier that
  \<open>uuid.uuid4()\<close> draws, whether staging the upload fails (at \<open>open\<close>, or at \<open>write\<close>
  after the file was created), what the external process does once launched, and whether
  \<open>output_file.exists()\<close> raises (with the text of the error), as it does on an error
  other than a missing or dangling path. The process exits with a return code, having
  written bytes to its standard output and its standard error and some files to the
  output directory; or it runs into the timeout and is killed; or the binary is not
  found; or launching raises something else. Captured output either decodes to a text
  or makes the decoder raise \<open>UnicodeDecodeError\<close> (with the text of the error).
\<close>

datatype captured = Text string | Undecodable string

definition decode :: "captured \<Rightarrow> py_exception + string" where
  "decode c = (case c of Text s \<Rightarrow> Inr s | Undecodable m \<Rightarrow> Inl (OtherException m))"

datatype io_fault = NoFault | OpenFails string | WriteFails string

datatype proc_outcome =
    Exited int captured captured "string list"
  | TimedOut "string list"
  | NotFound string
  | LaunchError string

record attempt =
  unique_id :: string
  stage_fault :: io_fault
  outcome :: proc_outcome
  exists_error :: "string option"

type_synonym conversion_result = "bool \<times> string \<times> string option"

definition generate_unique_filename :: "string \<Rightarrow> string \<Rightarrow> string \<Rightarrow> string" where
  "generate_unique_filename uid original_filename extension =
     path_stem original_filename @ ''_'' @ uid @ extension"

definition soffice_cmd :: "config \<Rightarrow> string \<Rightarrow> string \<Rightarrow> string list" where
  "soffice_cmd cfg input_file output_dir =
     [SOFFICE_PATH cfg, ''--headless'', ''--convert-to'', ''pdf'', ''--outdir'', output_dir,
      input_file]"

text \<open>\<open>with open(input_file, 'wb') as f: f.write(file_content)\<close>\<close>

definition write_file :: "io_fault \<Rightarrow> string \<Rightarrow> bytes \<Rightarrow> world \<Rightarrow> (py_exception + unit) \<times> world" where
  "write_file fault nm bs w =
     (case uploads w of
        Missing \<Rightarrow> (Inl (FileNotFoundError (''No such file or directory: '' @ nm)), w)
      | Dir l es \<Rightarrow>
          (case fault of
             OpenFails m \<Rightarrow> (Inl (OtherException m), w)
           | WriteFails m \<Rightarrow>
               (Inl (OtherException m), w\<lparr>uploads := put_file nm (new_file (now w) []) (uploads w)\<rparr>)
           | NoFault \<Rightarrow>
               (Inr (), w\<lparr>uploads := put_file nm (new_file (now w) bs) (uploads w)\<rparr>)))"

text \<open>\<open>output_file.exists()\<close>\<close>

definition output_exists :: "attempt \<Rightarrow> area \<Rightarrow> string \<Rightarrow> py_exception + bool" where
  "output_exists att a nm =
     (case exists_error att of
        Some m \<Rightarrow> Inl (OtherException m)
      | None \<Rightarrow> Inr (path_exists a nm))"

text \<open>
  \<open>subprocess.run(cmd, capture_output=True, text=True, timeout=...)\<close>: the launch is
  recorded and the files the process wrote appear in the output directory. With
  \<open>text=True\<close> the call decodes the captured standard output and standard error once
  the process has exited, whatever its return code; it returns the return code and the
  error text, or raises.
\<close>

definition subprocess_run :: "proc_outcome \<Rightarrow> string list \<Rightarrow> world \<Rightarrow> (py_exception + int \<times> string) \<times> world" where
  "subprocess_run oc cmd w =
     (let w1 = w\<lparr>launched := launched w @ [cmd]\<rparr> in
      case oc of
        Exited rc out err files \<Rightarrow>
          (let w2 = w1\<lparr>outputs := put_files (now w) files (outputs w)\<rparr> in
           case decode out of
             Inl e \<Rightarrow> (Inl e, w2)
           | Inr stdout_text \<Rightarrow>
               (case decode err of
                  Inl e \<Rightarrow> (Inl e, w2)
                | Inr stderr_text \<Rightarrow> (Inr (rc, stderr_text), w2)))
      | TimedOut files \<Rightarrow>
          (Inl (TimeoutExpired ''timed out''), w1\<lparr>outputs := put_files (now w) files (outputs w)\<rparr>)
      | NotFound m \<Rightarrow> (Inl (FileNotFoundError m), w1)
      | LaunchError m \<Rightarrow> (Inl (OtherException m), w1))"

text \<open>The \<open>except\<close> clauses of \<open>_run_soffice_command\<close>, in their order.\<close>

fun soffice_error_message :: "config \<Rightarrow> py_exception \<Rightarrow> string" where
  "soffice_error_message cfg (TimeoutExpired m) =
     ''Conversion timeout after '' @ str_of_int (CONVERSION_TIMEOUT cfg) @ '' seconds''"
| "soffice_error_message cfg (FileNotFoundError m) = ''LibreOffice not found at '' @ SOFFICE_PATH cfg"
| "soffice_error_message cfg e = ''Unexpected error during conversion: '' @ str_exc e"

definition run_soffice_command :: "config \<Rightarrow> proc_outcome \<Rightarrow> string \<Rightarrow> string \<Rightarrow> world \<Rightarrow> (bool \<times> string) \<times> world" where
  "run_soffice_command cfg oc input_file output_dir w =
     (case subprocess_run oc (soffice_cmd cfg input_file output_dir) w of
        (Inr (returncode, err), w') \<Rightarrow>
          if returncode = 0 then ((True, ''Conversion successful''), w')
          else ((False, ''Conversion failed: '' @ err), w')
      | (Inl e, w') \<Rightarrow> ((False, soffice_error_message cfg e), w'))"

text \<open>The \<open>try\<close> block of \<open>convert_to_pdf\<close>, and the function with its \<open>except Exception\<close>.\<close>

definition convert_to_pdf_try :: "config \<Rightarrow> attempt \<Rightarrow> bytes \<Rightarrow> string \<Rightarrow> world \<Rightarrow> (py_exception + conversion_result) \<times> world" where
  "convert_to_pdf_try cfg att file_content fname w =
     (let unique_input_name = generate_unique_filename (unique_id att) fname (path_suffix fname);
          input_file = path_join (UPLOAD_DIR cfg) unique_input_name
      in case write_file (stage_fault att) unique_input_name file_content w of
           (Inl e, w1) \<Rightarrow> (Inl e, w1)
         | (Inr u, w1) \<Rightarrow>
             (case run_soffice_command cfg (outcome att) input_file (OUTPUT_DIR cfg) w1 of
                ((ok, msg), w2) \<Rightarrow>
                  if ok then
                    (let expected_pdf_name = path_stem unique_input_name @ ''.pdf'' in
                     case output_exists att (outputs w2) expected_pdf_name of
                       Inl e \<Rightarrow> (Inl e, w2)
                     | Inr found \<Rightarrow>
                         if found
                         then (Inr (True, ''Conversion completed successfully'', Some expected_pdf_name), w2)
                         else (Inr (False, ''PDF file not found after conversion'', None), w2))
                  else (Inr (False, msg, None), w2)))"

definition convert_to_pdf :: "config \<Rightarrow> attempt \<Rightarrow> bytes \<Rightarrow> string \<Rightarrow> world \<Rightarrow> (py_exception + conversion_result) \<times> world" where
  "convert_to_pdf cfg att file_content fname w =
     (case convert_to_pdf_try cfg att file_content fname w of
        (Inl e, w') \<Rightarrow> (Inr (False, ''Error during conversion: '' @ str_exc e, None), w')
      | (Inr r, w') \<Rightarrow> (Inr r, w'))"

text \<open>
  \<open>asyncio.create_subprocess_exec\<close> launches the process or raises;
  \<open>asyncio.wait_for(process.communicate(), timeout=...)\<close> returns when the process has
  exited, with the return code and the bytes of the standard error, or raises
  \<open>asyncio.TimeoutError\<close>, after which the code kills the process. Nothing is decoded
  here; the code calls \<open>stderr.decode()\<close> only after a non-zero return code. When the
  launch has raised there is no process to wait for: the last two cases of
  \<open>communicate\<close> are never reached.
\<close>

definition create_subprocess_exec :: "proc_outcome \<Rightarrow> string list \<Rightarrow> world \<Rightarrow> (py_exception + unit) \<times> world" where
  "create_subprocess_exec oc cmd w =
     (let w1 = w\<lparr>launched := launched w @ [cmd]\<rparr> in
      case oc of
        NotFound m \<Rightarrow> (Inl (FileNotFoundError m), w1)
      | LaunchError m \<Rightarrow> (Inl (OtherException m), w1)
      | Exited rc out err files \<Rightarrow> (Inr (), w1)
      | TimedOut files \<Rightarrow> (Inr (), w1))"

definition communicate :: "proc_outcome \<Rightarrow> world \<Rightarrow> (py_exception + int \<times> captured) \<times> world" where
  "communicate oc w =
     (case oc of
        Exited rc out err files \<Rightarrow> (Inr (rc, err), w\<lparr>outputs := put_files (now w) files (outputs w)\<rparr>)
      | TimedOut files \<Rightarrow>
          (Inl (TimeoutError ''timed out''), w\<lparr>outputs := put_files (now w) files (outputs w)\<rparr>)
      | NotFound m \<Rightarrow> (Inl (OtherException m), w)
      | LaunchError m \<Rightarrow> (Inl (OtherException m), w))"

text \<open>The \<open>except asyncio.TimeoutError\<close> around \<open>wait_for\<close>; anything else goes on to the outer handler.\<close>

fun wait_for_handler :: "config \<Rightarrow> py_exception \<Rightarrow> py_exception + conversion_result" where
  "wait_for_handler cfg (TimeoutError m) =
     Inr (False, ''Conversion timeout after '' @ str_of_int (CONVERSION_TIMEOUT cfg) @ '' seconds'', None)"
| "wait_for_handler cfg e = Inl e"

definition convert_to_pdf_async_try :: "config \<Rightarrow> attempt \<Rightarrow> bytes \<Rightarrow> string \<Rightarrow> world \<Rightarrow> (py_exception + conversion_result) \<times> world" where
  "convert_to_pdf_async_try cfg att file_content fname w =
     (let unique_input_name = generate_unique_filename (unique_id att) fname (path_suffix fname);
          input_file = path_join (UPLOAD_DIR cfg) unique_input_name
      in case write_file (stage_fault att) unique_input_name file_content w of
           (Inl e, w1) \<Rightarrow> (Inl e, w1)
         | (Inr u, w1) \<Rightarrow>
             (case create_subprocess_exec (outcome att) (soffice_cmd cfg input_file (OUTPUT_DIR cfg)) w1 of
                (Inl e, w2) \<Rightarrow> (Inl e, w2)
              | (Inr p, w2) \<Rightarrow>
                  (case communicate (outcome att) w2 of
                     (Inl e, w3) \<Rightarrow> (wait_for_handler cfg e, w3)
                   | (Inr (returncode, err), w3) \<Rightarrow>
                       if returncode = 0 then
                         (let expected_pdf_name = path_stem unique_input_name @ ''.pdf'' in
                          case output_exists att (outputs w3) expected_pdf_name of
                            Inl e \<Rightarrow> (Inl e, w3)
                          | Inr found \<Rightarrow>
                              if found
                              then (Inr (True, ''Conversion completed successfully'', Some expected_pdf_name), w3)
                              else (Inr (False, ''PDF file not found after conversion'', None), w3))
                       else
                         (case decode err of
                            Inl e \<Rightarrow> (Inl e, w3)
                          | Inr stderr_text \<Rightarrow>
                              (Inr (False, ''Async conversion failed: '' @ stderr_text, None), w3)))))"

definition convert_to_pdf_async :: "config \<Rightarrow> attempt \<Rightarrow> bytes \<Rightarrow> string \<Rightarrow> world \<Rightarrow> (py_exception + conversion_result) \<times> world" where
  "convert_to_pdf_async cfg att file_content fname w =
     (case convert_to_pdf_async_try cfg att file_content fname w of
        (Inl e, w') \<Rightarrow> (Inr (False, ''Error during async conversion: '' @ str_exc e, None), w')
      | (Inr r, w') \<Rightarrow> (Inr r, w'))"

text \<open>
  Observations of one attempt, read off the world before and after it: the exit status of
  the process, when one was launched and exited; the output name the code predicts from
  the staged name; whether an outcome is a process that exited with status zero.
\<close>

definition exit_code :: "world \<Rightarrow> attempt \<Rightarrow> world \<Rightarrow> int option" where
  "exit_code w att w' =
     (if length (launched w') = length (launched w) then None
      else (case outcome att of Exited rc out err files \<Rightarrow> Some rc | _ \<Rightarrow> None))"

definition predicted_output_name :: "attempt \<Rightarrow> string \<Rightarrow> string" where
  "predicted_output_name att fname =
     path_stem (generate_unique_filename (unique_id att) fname (path_suffix fname)) @ ''.pdf''"

definition exited_zero :: "proc_outcome \<Rightarrow> bool" where
  "exited_zero oc = (case oc of Exited rc out err files \<Rightarrow> rc = 0 | _ \<Rightarrow> False)"

definition staging_raises :: "attempt \<Rightarrow> world \<Rightarrow> bool" where
  "staging_raises att w = (uploads w = Missing \<or> stage_fault att \<noteq> NoFault)"

text \<open>
  The two forms of the invoker, and what can raise in each once the process has exited
  with status zero: in the blocking form the decoding of the captured output, in both
  forms the existence check.
\<close>

datatype form = Blocking | Awaitable

definition convert :: "form \<Rightarrow> config \<Rightarrow> attempt \<Rightarrow> bytes \<Rightarrow> string \<Rightarrow> world \<Rightarrow> (py_exception + conversion_result) \<times> world" where
  "convert f = (case f of Blocking \<Rightarrow> convert_to_pdf | Awaitable \<Rightarrow> convert_to_pdf_async)"

definition decode_raises :: "proc_outcome \<Rightarrow> bool" where
  "decode_raises oc =
     (case oc of
        Exited rc out err files \<Rightarrow>
          (case out of
             Undecodable m \<Rightarrow> True
           | Text s \<Rightarrow> (case err of Undecodable m \<Rightarrow> True | Text s' \<Rightarrow> False))
      | _ \<Rightarrow> False)"

definition raises_after_exit :: "form \<Rightarrow> attempt \<Rightarrow> bool" where
  "raises_after_exit f att =
     (exists_error att \<noteq> None \<or> (f = Blocking \<and> decode_raises (outcome att)))"

text \<open>A file name whose last character is a dot, such as \<open>report.\<close>.\<close>

definition ends_with_dot :: "string \<Rightarrow> bool" where
  "ends_with_dot nm = (nm \<noteq> [] \<and> last nm = CHR ''.'')"

section \<open>The retention sweeper (cleanup.py)\<close>

text \<open>
  \<open>timedelta(hours=h)\<close> in microseconds. The clock is the field \<open>now\<close> of the world; it
  advances only when the code sleeps, so every \<open>datetime.now()\<close> of one sweep reads the
  same value.
\<close>

definition hours :: "int \<Rightarrow> int" where
  "hours h = h * 3600000000"

definition seconds :: "int \<Rightarrow> int" where
  "seconds s = s * 1000000"

definition is_file_expired :: "config \<Rightarrow> int \<Rightarrow> entry \<Rightarrow> bool" where
  "is_file_expired cfg t e =
     (case st_mtime e of
        None \<Rightarrow> False
      | Some file_mtime \<Rightarrow> (let expire_time = t - hours (FILE_EXPIRE_HOURS cfg) in file_mtime < expire_time))"

text \<open>
  The loop of \<open>_cleanup_directory\<close> over the listed entries: an entry that is a regular
  file and expired is unlinked and its path recorded; when \<open>unlink()\<close> raises, the error
  is logged and the entry stays. The call \<open>is_file()\<close> stands outside that inner \<open>try\<close>:
  when it raises, the outer handler logs the error and the scan of the directory ends
  there, with this entry and all later ones left as they are and the paths deleted so
  far kept in the result. The result is the entries left and the paths deleted.
\<close>

fun cleanup_entries :: "config \<Rightarrow> int \<Rightarrow> string \<Rightarrow> (string \<times> entry) list \<Rightarrow> (string \<times> entry) list \<times> string list" where
  "cleanup_entries cfg t d [] = ([], [])"
| "cleanup_entries cfg t d ((nm, e) # es) =
     (case is_file e of
        None \<Rightarrow> ((nm, e) # es, [])
      | Some regular \<Rightarrow>
          (case cleanup_entries cfg t d es of
             (kept, deleted_files) \<Rightarrow>
               if regular \<and> is_file_expired cfg t e then
                 (if deletable e then (kept, path_join d nm # deleted_files)
                  else ((nm, e) # kept, deleted_files))
               else ((nm, e) # kept, deleted_files)))"


definition cleanup_directory :: "config \<Rightarrow> int \<Rightarrow> string \<Rightarrow> area \<Rightarrow> area \<times> string list" where
  "cleanup_directory cfg t d a =
     (case a of
        Missing \<Rightarrow> (Missing, [])
      | Dir l es \<Rightarrow>
          if l then (case cleanup_entries cfg t d es of (kept, deleted_files) \<Rightarrow> (Dir l kept, deleted_files))
          else (Dir l es, []))"

record report =
  timestamp :: int
  deleted_uploads :: nat
  deleted_outputs :: nat
  total_deleted :: nat
  upload_files :: "string list"
  output_files :: "string list"

definition cleanup_expired_files :: "config \<Rightarrow> world \<Rightarrow> report \<times> world" where
  "cleanup_expired_files cfg w =
     (case cleanup_directory cfg (now w) (UPLOAD_DIR cfg) (uploads w) of
        (up, del_uploads) \<Rightarrow>
          (case cleanup_directory cfg (now w) (OUTPUT_DIR cfg) (outputs w) of
             (out, del_outputs) \<Rightarrow>
               (\<lparr> timestamp = now w,
                  deleted_uploads = length del_uploads,
                  deleted_outputs = length del_outputs,
                  total_deleted = length del_uploads + length del_outputs,
                  upload_files = del_uploads,
                  output_files = del_outputs \<rparr>,
                w\<lparr>uploads := up, outputs := out\<rparr>)))"

text \<open>
  The sweeper object: the flag \<open>is_running\<close> and whether a task was created.
  \<open>start_cleanup_service\<close> and \<open>stop_cleanup_service\<close> as written.
\<close>

record sweeper =
  is_running :: bool
  cleanup_task :: bool

definition new_sweeper :: sweeper where
  "new_sweeper = \<lparr> is_running = False, cleanup_task = False \<rparr>"

definition start_cleanup_service :: "config \<Rightarrow> sweeper \<Rightarrow> sweeper" where
  "start_cleanup_service cfg s =
     (if \<not> ENABLE_CLEANUP cfg then s
      else if is_running s then s
      else s\<lparr>is_running := True, cleanup_task := True\<rparr>)"

definition stop_cleanup_service :: "sweeper \<Rightarrow> sweeper" where
  "stop_cleanup_service s = (if \<not> is_running s then s else s\<lparr>is_running := False\<rparr>)"

text \<open>
  The task \<open>_cleanup_loop\<close>. What the environment decides in each pass of the loop: the
  value of \<open>is_running\<close> when the \<open>while\<close> condition is read, whether the sweep raises (with
  the text of the exception), and whether the task is cancelled while it sleeps. The
  loop runs until it is stopped; the model runs it over the passes it is given and
  returns what it did: the sweeps with their reports, the sleeps with their length in
  seconds, the two log lines. A sleep moves the clock.
\<close>

record pass =
  running :: bool
  sweep_error :: "string option"
  cancelled :: bool

datatype loop_event = Swept report | Skipped | Slept int | LogCancelled | LogError string

text \<open>\<open>asyncio.sleep(s)\<close>: a delay that is not positive returns at once.\<close>

definition sleep :: "int \<Rightarrow> world \<Rightarrow> world" where
  "sleep s w = w\<lparr>now := now w + seconds (max 0 s)\<rparr>"

text \<open>The \<open>try\<close> block of one pass up to the sleep: the sweep, when cleanup is enabled.\<close>

definition sweep_pass :: "config \<Rightarrow> pass \<Rightarrow> world \<Rightarrow> (string + loop_event) \<times> world" where
  "sweep_pass cfg p w =
     (if ENABLE_CLEANUP cfg then
        (case sweep_error p of
           Some m \<Rightarrow> (Inl m, w)
         | None \<Rightarrow> (case cleanup_expired_files cfg w of (r, w1) \<Rightarrow> (Inr (Swept r), w1)))
      else (Inr Skipped, w))"

fun cleanup_loop :: "config \<Rightarrow> pass list \<Rightarrow> world \<Rightarrow> loop_event list \<times> world" where
  "cleanup_loop cfg [] w = ([], w)"
| "cleanup_loop cfg (p # ps) w =
     (if \<not> running p then ([], w)
      else
        (case sweep_pass cfg p w of
           (Inr ev, w1) \<Rightarrow>
             if cancelled p then ([ev, LogCancelled], w1)
             else (case cleanup_loop cfg ps (sleep (CLEANUP_INTERVAL_MINUTES cfg * 60) w1) of
                     (evs, w') \<Rightarrow> (ev # Slept (CLEANUP_INTERVAL_MINUTES cfg * 60) # evs, w'))
         | (Inl m, w1) \<Rightarrow>
             if cancelled p then ([LogError m], w1)
             else (case cleanup_loop cfg ps (sleep 60 w1) of
                     (evs, w') \<Rightarrow> (LogError m # Slept 60 # evs, w'))))"

text \<open>The clock readings of the sweeps in a trace.\<close>

fun sweep_times :: "loop_event list \<Rightarrow> int list" where
  "sweep_times [] = []"
| "sweep_times (Swept r # evs) = timestamp r # sweep_times evs"
| "sweep_times (ev # evs) = sweep_times evs"

text \<open>A pass in which the service is running, the sweep does not raise and nothing is cancelled.\<close>

definition quiet :: "pass \<Rightarrow> bool" where
  "quiet p = (running p \<and> sweep_error p = None \<and> \<not> cancelled p)"

definition quiet_pass :: pass where
  "quiet_pass = \<lparr> running = True, sweep_error = None, cancelled = False \<rparr>"


section \<open>The HTTP handlers and the job registry (main.py)\<close>

datatype http_exception = HTTPException (status_code: int) (detail: string)

text \<open>
  \<open>ConversionResponse(success, message, task_id, download_url, filename)\<close> and
  \<open>TaskStatusResponse(task_id, status, message, download_url, filename)\<close>.
\<close>

datatype conversion_response =
  ConversionResponse bool string "string option" "string option" "string option"

datatype task_status_response =
  TaskStatusResponse string string string "string option" "string option"

text \<open>
  An entry of the dictionary \<open>async_tasks\<close>. Its \<open>status\<close> is one of the three strings
  \<open>processing\<close>, \<open>completed\<close>, \<open>failed\<close>.
\<close>

datatype task_status = Processing | Completed | Failed

fun status_str :: "task_status \<Rightarrow> string" where
  "status_str Processing = ''processing''"
| "status_str Completed = ''completed''"
| "status_str Failed = ''failed''"

record task =
  status :: task_status
  message :: string
  filename :: "string option"
  created_at :: int

text \<open>
  The state of the application: the file system and clock, the dictionary
  \<open>async_tasks\<close>, and the background tasks that were added and have not run yet, each
  with the arguments \<open>(task_id, file_content, filename)\<close> it was added with.
\<close>

record app =
  fs :: world
  async_tasks :: "string \<rightharpoonup> task"
  background_tasks :: "(string \<times> bytes \<times> string) list"

definition allowed_extensions :: "string list" where
  "allowed_extensions =
     [''.doc'', ''.docx'', ''.xls'', ''.xlsx'', ''.ppt'', ''.pptx'', ''.odt'', ''.ods'', ''.odp'']"

text \<open>\<open>sep.join(xs)\<close>\<close>

fun join :: "string \<Rightarrow> string list \<Rightarrow> string" where
  "join sep [] = []"
| "join sep [x] = x"
| "join sep (x # y # ys) = x @ sep @ join sep (y # ys)"

definition unsupported_detail :: "string \<Rightarrow> string" where
  "unsupported_detail file_ext =
     ''Unsupported file type: '' @ file_ext @ ''. Supported types: '' @ join '', '' allowed_extensions"

text \<open>
  \<open>convert_sync\<close>: the extension check, the empty-file check, the conversion. An
  \<open>HTTPException\<close> is raised on to the framework; any other exception becomes a 500.
\<close>

definition convert_sync :: "config \<Rightarrow> attempt \<Rightarrow> string \<Rightarrow> bytes \<Rightarrow> app \<Rightarrow> (http_exception + conversion_response) \<times> app" where
  "convert_sync cfg att fname file_content a =
     (let file_ext = lower (path_suffix fname) in
      if file_ext \<notin> set allowed_extensions then (Inl (HTTPException 400 (unsupported_detail file_ext)), a)
      else if length file_content = 0 then (Inl (HTTPException 400 ''Empty file''), a)
      else
        (case convert_to_pdf cfg att file_content fname (fs a) of
           (Inl e, w') \<Rightarrow>
             (Inl (HTTPException 500 (''Internal server error: '' @ str_exc e)), a\<lparr>fs := w'\<rparr>)
         | (Inr (ok, msg, output_filename), w') \<Rightarrow>
             if ok then
               (Inr (ConversionResponse True msg None
                       (Some (''/download/'' @ (case output_filename of None \<Rightarrow> ''None'' | Some f \<Rightarrow> f)))
                       output_filename),
                a\<lparr>fs := w'\<rparr>)
             else (Inl (HTTPException 500 msg), a\<lparr>fs := w'\<rparr>)))"

text \<open>
  \<open>convert_async\<close>: the same two checks, then the identifier drawn by \<open>uuid.uuid4()\<close>
  (the argument \<open>tid\<close>), the new entry of \<open>async_tasks\<close>, and the background task.
\<close>

definition convert_async :: "config \<Rightarrow> string \<Rightarrow> string \<Rightarrow> bytes \<Rightarrow> app \<Rightarrow> (http_exception + conversion_response) \<times> app" where
  "convert_async cfg tid fname file_content a =
     (let file_ext = lower (path_suffix fname) in
      if file_ext \<notin> set allowed_extensions then (Inl (HTTPException 400 (unsupported_detail file_ext)), a)
      else if length file_content = 0 then (Inl (HTTPException 400 ''Empty file''), a)
      else
        (Inr (ConversionResponse True ''Conversion task started'' (Some tid) None None),
         a\<lparr>async_tasks := (async_tasks a)(tid \<mapsto>
               \<lparr> status = Processing, message = ''Conversion in progress'', filename = None,
                 created_at = now (fs a) \<rparr>),
           background_tasks := background_tasks a @ [(tid, file_content, fname)]\<rparr>))"

text \<open>
  An assignment \<open>async_tasks[task_id] = {..., "created_at": async_tasks[task_id]["created_at"]}\<close>:
  the right-hand side is evaluated first and raises \<open>KeyError\<close> when the key is absent.
\<close>

definition set_task :: "string \<Rightarrow> task_status \<Rightarrow> string \<Rightarrow> string option \<Rightarrow> app \<Rightarrow> py_exception + app" where
  "set_task tid st msg fn a =
     (case async_tasks a tid of
        None \<Rightarrow> Inl (KeyError tid)
      | Some old \<Rightarrow>
          Inr (a\<lparr>async_tasks := (async_tasks a)(tid \<mapsto>
                 \<lparr> status = st, message = msg, filename = fn, created_at = created_at old \<rparr>)\<rparr>))"

text \<open>
  \<open>process_async_conversion\<close>: the \<open>try\<close> block, and the function with its handler, which
  assigns the entry again and so can raise itself.
\<close>

definition process_async_conversion_try :: "config \<Rightarrow> attempt \<Rightarrow> string \<Rightarrow> bytes \<Rightarrow> string \<Rightarrow> app \<Rightarrow> py_exception + app" where
  "process_async_conversion_try cfg att tid file_content fname a =
     (case convert_to_pdf_async cfg att file_content fname (fs a) of
        (Inl e, w') \<Rightarrow> Inl e
      | (Inr (ok, msg, output_filename), w') \<Rightarrow>
          if ok then set_task tid Completed msg output_filename (a\<lparr>fs := w'\<rparr>)
          else set_task tid Failed msg None (a\<lparr>fs := w'\<rparr>))"

definition process_async_conversion :: "config \<Rightarrow> attempt \<Rightarrow> string \<Rightarrow> bytes \<Rightarrow> string \<Rightarrow> app \<Rightarrow> (py_exception + unit) \<times> app" where
  "process_async_conversion cfg att tid file_content fname a =
     (let a1 = a\<lparr>fs := snd (convert_to_pdf_async cfg att file_content fname (fs a))\<rparr> in
      case process_async_conversion_try cfg att tid file_content fname a of
        Inr a' \<Rightarrow> (Inr (), a')
      | Inl e \<Rightarrow>
          (case set_task tid Failed (''Conversion failed: '' @ str_exc e) None a1 of
             Inr a' \<Rightarrow> (Inr (), a')
           | Inl e' \<Rightarrow> (Inl e', a1)))"

definition get_task_status :: "string \<Rightarrow> app \<Rightarrow> http_exception + task_status_response" where
  "get_task_status tid a =
     (case async_tasks a tid of
        None \<Rightarrow> Inl (HTTPException 404 ''Task not found'')
      | Some t \<Rightarrow>
          (let download_url =
                 (if status t = Completed \<and> filename t \<noteq> None \<and> filename t \<noteq> Some []
                  then Some (''/download/'' @ the (filename t)) else None)
           in Inr (TaskStatusResponse tid (status_str (status t)) (message t) download_url (filename t))))"

definition manual_cleanup :: "config \<Rightarrow> app \<Rightarrow> report \<times> app" where
  "manual_cleanup cfg a = (case cleanup_expired_files cfg (fs a) of (r, w') \<Rightarrow> (r, a\<lparr>fs := w'\<rparr>))"

text \<open>
  What can happen to the application, one event at a time: a request to one of the
  endpoints, or the framework running a background task that was added. A background
  task runs once; \<open>RunBackground tid\<close> runs the one added for \<open>tid\<close> and does nothing when
  there is none waiting.
\<close>

datatype event =
    ConvertSync string bytes attempt
  | ConvertAsync string bytes string
  | RunBackground string attempt
  | GetTaskStatus string
  | ManualCleanup

fun pending :: "string \<Rightarrow> (string \<times> bytes \<times> string) list \<Rightarrow> (string \<times> bytes \<times> string) option" where
  "pending tid [] = None"
| "pending tid ((t, c, f) # bs) = (if t = tid then Some (t, c, f) else pending tid bs)"

fun step :: "config \<Rightarrow> event \<Rightarrow> app \<Rightarrow> app" where
  "step cfg (ConvertSync fname file_content att) a = snd (convert_sync cfg att fname file_content a)"
| "step cfg (ConvertAsync fname file_content tid) a = snd (convert_async cfg tid fname file_content a)"
| "step cfg (RunBackground tid att) a =
     (case pending tid (background_tasks a) of
        None \<Rightarrow> a
      | Some (t, c, f) \<Rightarrow>
          snd (process_async_conversion cfg att t c f (a\<lparr>background_tasks := remove1 (t, c, f) (background_tasks a)\<rparr>)))"
| "step cfg (GetTaskStatus tid) a = a"
| "step cfg ManualCleanup a = snd (manual_cleanup cfg a)"

text \<open>The status of a job, and the statuses it has in the states a run goes through.\<close>

definition job_status :: "app \<Rightarrow> string \<Rightarrow> task_status option" where
  "job_status a tid = map_option status (async_tasks a tid)"

fun history :: "config \<Rightarrow> string \<Rightarrow> app \<Rightarrow> event list \<Rightarrow> task_status option list" where
  "history cfg tid a [] = [job_status a tid]"
| "history cfg tid a (e # es) = job_status a tid # history cfg tid (step cfg e a) es"

fun drawn_ids :: "event list \<Rightarrow> string list" where
  "drawn_ids [] = []"
| "drawn_ids (ConvertAsync fname file_content tid # es) = tid # drawn_ids es"
| "drawn_ids (e # es) = drawn_ids es"

definition empty_world :: world where
  "empty_world = \<lparr> uploads = Dir True [], outputs = Dir True [], now = 0, launched = [] \<rparr>"

definition initial_app :: app where
  "initial_app = \<lparr> fs = empty_world, async_tasks = Map.empty, background_tasks = [] \<rparr>"

text \<open>
  The moves a job's status can make from one state to the next, and the sequences of
  distinct statuses a job can still go through from a given status (\<open>None\<close>: not
  registered).
\<close>

definition allowed_move :: "task_status option \<Rightarrow> task_status option \<Rightarrow> bool" where
  "allowed_move x y =
     (x = y \<or> (x = None \<and> y = Some Processing) \<or>
      (x = Some Processing \<and> (y = Some Completed \<or> y = Some Failed)))"

fun lifecycles :: "task_status option \<Rightarrow> task_status option list set" where
  "lifecycles None =
     {[None], [None, Some Processing], [None, Some Processing, Some Completed],
      [None, Some Processing, Some Failed]}"
| "lifecycles (Some Processing) =
     {[Some Processing], [Some Processing, Some Completed], [Some Processing, Some Failed]}"
| "lifecycles (Some Completed) = {[Some Completed]}"
| "lifecycles (Some Failed) = {[Some Failed]}"

text \<open>
  What holds of the application before each event of a run in which every identifier is
  drawn once: the waiting background tasks have distinct identifiers, each belongs to a
  job that is still processing, and the identifiers yet to be drawn are not registered.
\<close>

definition consistent :: "app \<Rightarrow> event list \<Rightarrow> bool" where
  "consistent a evs =
     (distinct (map fst (background_tasks a)) \<and>
      (\<forall>t \<in> fst ` set (background_tasks a). job_status a t = Some Processing) \<and>
      distinct (drawn_ids evs) \<and>
      set (drawn_ids evs) \<inter> dom (async_tasks a) = {})"

section \<open>Concrete inputs\<close>

text \<open>An identifier as \<open>uuid.uuid4()\<close> prints it, and attempts used in the examples below.\<close>

definition uuid1 :: string where
  "uuid1 = ''3f2b8c1e-5d4a-4c7b-9e6f-0a1b2c3d4e5f''"

definition attempt_ok :: attempt where
  "attempt_ok =
     \<lparr> unique_id = uuid1, stage_fault = NoFault,
       outcome = Exited 0 (Text []) (Text []) [''report_3f2b8c1e-5d4a-4c7b-9e6f-0a1b2c3d4e5f.pdf''],
       exists_error = None \<rparr>"

definition attempt_no_output :: attempt where
  "attempt_no_output =
     \<lparr> unique_id = uuid1, stage_fault = NoFault, outcome = Exited 0 (Text []) (Text []) [],
       exists_error = None \<rparr>"

definition attempt_timeout :: attempt where
  "attempt_timeout =
     \<lparr> unique_id = uuid1, stage_fault = NoFault, outcome = TimedOut [], exists_error = None \<rparr>"


text \<open>The application after one deferred submission of \<open>report.docx\<close> under the identifier \<open>job-1\<close>.\<close>

definition app_submitted :: app where
  "app_submitted = snd (convert_async default_config ''job-1'' ''report.docx'' [1] initial_app)"

text \<open>
  Two hours after time zero, with the default expiry of one hour: an upload written at
  time zero, a second one written ten minutes ago, and the same old upload when its
  \<open>unlink()\<close> fails.
\<close>

definition old_file :: entry where
  "old_file = new_file 0 [1]"

definition recent_file :: entry where
  "recent_file = new_file 6600000000 [1]"


definition world_old :: world where
  "world_old =
     \<lparr> uploads = Dir True [(''old.docx'', old_file), (''recent.docx'', recent_file)],
       outputs = Dir True [], now = 7200000000, launched = [] \<rparr>"


text \<open>
  A run: a deferred submission, a status query, the background task, an immediate
  conversion, a manual cleanup, a second deferred submission and its background task,
  whose process times out.
\<close>

definition example_run :: "event list" where
  "example_run =
     [ConvertAsync ''report.docx'' [1] ''job-1'',
      GetTaskStatus ''job-1'',
      RunBackground ''job-1'' attempt_ok,
      ConvertSync ''slides.pptx'' [2] attempt_no_output,
      ManualCleanup,
      ConvertAsync ''sheet.xlsx'' [3] ''job-2'',
      RunBackground ''job-2'' attempt_timeout,
      RunBackground ''job-1'' attempt_timeout]"

section \<open>Properties of the conversion invoker\<close>

lemmas converter_defs =
  convert_to_pdf_def convert_to_pdf_try_def run_soffice_command_def subprocess_run_def
  write_file_def convert_to_pdf_async_def convert_to_pdf_async_try_def
  create_subprocess_exec_def communicate_def decode_def output_exists_def

lemmas observation_defs =
  exit_code_def predicted_output_name_def exited_zero_def staging_raises_def
  raises_after_exit_def decode_raises_def

text \<open>
  Both forms of the invoker return a result triple in every case; what the triple is
  follows the staging step, the outcome of the process, the decoding of its output and
  the existence check.
\<close>

lemma convert_to_pdf_cases:
  assumes "convert_to_pdf cfg att bs fname w = (r, w')"
  shows "\<exists>ok msg out. r = Inr (ok, msg, out) \<and>
     (ok \<longleftrightarrow> exit_code w att w' = Some 0 \<and> path_exists (outputs w') (predicted_output_name att fname)
            \<and> \<not> raises_after_exit Blocking att) \<and>
     (ok \<longrightarrow> out = Some (predicted_output_name att fname)) \<and>
     (\<not> ok \<longrightarrow> out = None \<and> msg \<noteq> []) \<and>
     (ok \<longrightarrow> exited_zero (outcome att) \<and> \<not> staging_raises att w) \<and>
     (exit_code w att w' = Some 0 \<and> \<not> path_exists (outputs w') (predicted_output_name att fname)
        \<and> \<not> raises_after_exit Blocking att
        \<longrightarrow> msg = ''PDF file not found after conversion'')"
  using assms
  unfolding converter_defs observation_defs Let_def
  by (cases "outcome att"; cases "stage_fault att"; cases "uploads w"; cases "exists_error att")
     (auto split: if_splits captured.splits)

lemma convert_to_pdf_async_cases:
  assumes "convert_to_pdf_async cfg att bs fname w = (r, w')"
  shows "\<exists>ok msg out. r = Inr (ok, msg, out) \<and>
     (ok \<longleftrightarrow> exit_code w att w' = Some 0 \<and> path_exists (outputs w') (predicted_output_name att fname)
            \<and> \<not> raises_after_exit Awaitable att) \<and>
     (ok \<longrightarrow> out = Some (predicted_output_name att fname)) \<and>
     (\<not> ok \<longrightarrow> out = None \<and> msg \<noteq> []) \<and>
     (ok \<longrightarrow> exited_zero (outcome att) \<and> \<not> staging_raises att w) \<and>
     (exit_code w att w' = Some 0 \<and> \<not> path_exists (outputs w') (predicted_output_name att fname)
        \<and> \<not> raises_after_exit Awaitable att
        \<longrightarrow> msg = ''PDF file not found after conversion'')"
  using assms
  unfolding converter_defs observation_defs Let_def
  by (cases "outcome att"; cases "stage_fault att"; cases "uploads w"; cases "exists_error att")
     (auto split: if_splits captured.splits)


lemma either_form_cases:
  assumes "run = convert_to_pdf \<or> run = convert_to_pdf_async"
    and "run cfg att bs fname w = (r, w')"
  shows "\<exists>ok msg out. r = Inr (ok, msg, out) \<and>
     (ok \<longrightarrow> exit_code w att w' = Some 0 \<and> path_exists (outputs w') (predicted_output_name att fname)) \<and>
     (ok \<longrightarrow> out = Some (predicted_output_name att fname)) \<and>
     (\<not> ok \<longrightarrow> out = None \<and> msg \<noteq> []) \<and>
     (ok \<longrightarrow> exited_zero (outcome att) \<and> \<not> staging_raises att w)"
  using assms(1)
proof
  assume "run = convert_to_pdf"
  with assms(2) have "convert_to_pdf cfg att bs fname w = (r, w')" by simp
  from convert_to_pdf_cases [OF this] show ?thesis by blast
next
  assume "run = convert_to_pdf_async"
  with assms(2) have "convert_to_pdf_async cfg att bs fname w = (r, w')" by simp
  from convert_to_pdf_async_cases [OF this] show ?thesis by blast
qed






text \<open>
  C10. In the triple either form returns, the output name is there exactly on success:
  on success it is a name that ends with \<open>.pdf\<close>, on failure it is \<open>None\<close>.
\<close>

theorem output_name_exactly_on_success:
  assumes "run = convert_to_pdf \<or> run = convert_to_pdf_async"
    and "run cfg att bs fname w = (r, w')"
  shows "\<exists>ok msg out. r = Inr (ok, msg, out) \<and>
     (if ok then \<exists>stem. out = Some (stem @ ''.pdf'') else out = None)"
proof -
  from either_form_cases [OF assms]
  obtain ok msg out where r: "r = Inr (ok, msg, out)"
    and yes: "ok \<longrightarrow> out = Some (predicted_output_name att fname)"
    and no: "\<not> ok \<longrightarrow> out = None \<and> msg \<noteq> []"
    by blast
  have "if ok then \<exists>stem. out = Some (stem @ ''.pdf'') else out = None"
  proof (cases ok)
    case True
    with yes have "out = Some (predicted_output_name att fname)" by simp
    then have "\<exists>stem. out = Some (stem @ ''.pdf'')"
      unfolding predicted_output_name_def by (rule exI)
    with True show ?thesis by simp
  next
    case False
    with no show ?thesis by simp
  qed
  with r show ?thesis by blast
qed

theorem output_name_exactly_on_success_witness:
  "\<exists>ok msg out.
     fst (convert_to_pdf_async default_config attempt_ok [1] ''report.docx'' empty_world) = Inr (ok, msg, out) \<and>
     (if ok then \<exists>stem. out = Some (stem @ ''.pdf'') else out = None) \<and> ok"
proof -
  have b: "convert_to_pdf_async = convert_to_pdf \<or> convert_to_pdf_async = convert_to_pdf_async" by simp
  have c: "fst (convert_to_pdf_async default_config attempt_ok [1] ''report.docx'' empty_world) =
     Inr (True, ''Conversion completed successfully'',
          Some ''report_3f2b8c1e-5d4a-4c7b-9e6f-0a1b2c3d4e5f.pdf'')"
    by code_simp
  from output_name_exactly_on_success [OF b prod.collapse [symmetric],
      of default_config attempt_ok "[1]" "''report.docx''" empty_world] c
  show ?thesis by auto
qed

section \<open>Properties of the handlers and the job registry\<close>

text \<open>
  C6. A submission whose content has length zero is rejected by \<open>convert_sync\<close> and by
  \<open>convert_async\<close> with a 400 response, and the application is left exactly as it was:
  no file is staged, no process is launched, no job is registered and no background
  task is added.
\<close>

theorem empty_input_rejected:
  assumes "length bs = 0"
  shows "(\<exists>d. convert_sync cfg att fname bs a = (Inl (HTTPException 400 d), a)) \<and>
         (\<exists>d. convert_async cfg tid fname bs a = (Inl (HTTPException 400 d), a))"
  using assms unfolding convert_sync_def convert_async_def Let_def by simp

theorem empty_input_rejected_witness:
  "convert_sync default_config attempt_ok ''report.docx'' [] initial_app =
     (Inl (HTTPException 400 ''Empty file''), initial_app) \<and>
   convert_async default_config ''job-1'' ''report.docx'' [] initial_app =
     (Inl (HTTPException 400 ''Empty file''), initial_app)"
proof -
  have e: "length ([] :: bytes) = 0" by simp
  have s: "fst (convert_sync default_config attempt_ok ''report.docx'' [] initial_app) =
     Inl (HTTPException 400 ''Empty file'')"
    by code_simp
  have t: "fst (convert_async default_config ''job-1'' ''report.docx'' [] initial_app) =
     Inl (HTTPException 400 ''Empty file'')"
    by code_simp
  from empty_input_rejected [OF e, of default_config attempt_ok "''report.docx''" initial_app "''job-1''"] s t
  show ?thesis by auto
qed

text \<open>
  C5, as the claim states it, fails: run for an identifier that is not in
  \<open>async_tasks\<close>, \<open>process_async_conversion\<close> raises \<open>KeyError\<close>. The conversion itself
  is absorbed, but both assignments read \<open>async_tasks[task_id]["created_at"]\<close>, the
  second of them inside the handler.
\<close>

theorem completion_for_absent_job_raises:
  "fst (process_async_conversion default_config attempt_ok ''no-such-job'' [1] ''report.docx'' initial_app)
     = Inl (KeyError ''no-such-job'')"
  by code_simp

text \<open>
  C5, amended. Run for an identifier that is absent, \<open>process_async_conversion\<close> leaves
  \<open>async_tasks\<close> as it was and raises \<open>KeyError\<close> for that identifier. Run for an identifier
  that is present, which is how the deferred path runs it, it raises nothing and leaves
  the job completed or failed.
\<close>

theorem completion_handler_by_presence:
  "(async_tasks a tid = None \<longrightarrow>
      fst (process_async_conversion cfg att tid bs fname a) = Inl (KeyError tid) \<and>
      async_tasks (snd (process_async_conversion cfg att tid bs fname a)) = async_tasks a) \<and>
   (async_tasks a tid \<noteq> None \<longrightarrow>
      fst (process_async_conversion cfg att tid bs fname a) = Inr () \<and>
      (job_status (snd (process_async_conversion cfg att tid bs fname a)) tid = Some Completed \<or>
       job_status (snd (process_async_conversion cfg att tid bs fname a)) tid = Some Failed))"
proof -
  obtain r w' where c: "convert_to_pdf_async cfg att bs fname (fs a) = (r, w')"
    by (cases "convert_to_pdf_async cfg att bs fname (fs a)")
  from convert_to_pdf_async_cases [OF c] obtain ok msg out where r: "r = Inr (ok, msg, out)"
    by blast
  show ?thesis
    unfolding process_async_conversion_def process_async_conversion_try_def set_task_def
      job_status_def Let_def
    by (simp add: c r split: option.splits)
qed

theorem completion_handler_by_presence_witness:
  "fst (process_async_conversion default_config attempt_ok ''job-1'' [1] ''report.docx'' app_submitted) = Inr () \<and>
   job_status (snd (process_async_conversion default_config attempt_ok ''job-1'' [1] ''report.docx'' app_submitted))
     ''job-1'' = Some Completed \<and>
   fst (process_async_conversion default_config attempt_ok ''job-2'' [1] ''report.docx'' app_submitted)
     = Inl (KeyError ''job-2'')"
proof -
  have p: "async_tasks app_submitted ''job-1'' \<noteq> None" by code_simp
  have q: "async_tasks app_submitted ''job-2'' = None" by code_simp
  have s: "job_status (snd (process_async_conversion default_config attempt_ok ''job-1'' [1] ''report.docx'' app_submitted))
     ''job-1'' = Some Completed"
    by code_simp
  from completion_handler_by_presence [of app_submitted "''job-1''" default_config attempt_ok "[1]" "''report.docx''"]
    completion_handler_by_presence [of app_submitted "''job-2''" default_config attempt_ok "[1]" "''report.docx''"]
    p q s
  show ?thesis by simp
qed

section \<open>Properties of the retention sweeper\<close>


lemma cleanup_entries_again:
  "cleanup_entries cfg t d' (fst (cleanup_entries cfg t d es)) = (fst (cleanup_entries cfg t d es), [])"
proof (induction es)
  case Nil
  show ?case by simp
next
  case (Cons x es)
  obtain nm e where x: "x = (nm, e)" by (cases x)
  obtain kept del where k: "cleanup_entries cfg t d es = (kept, del)"
    by (cases "cleanup_entries cfg t d es")
  with Cons.IH have again: "cleanup_entries cfg t d' kept = (kept, [])" by simp
  show ?case
  proof (cases "is_file e")
    case None
    then show ?thesis unfolding x by simp
  next
    case (Some regular)
    with k again show ?thesis unfolding x by simp
  qed
qed

lemma cleanup_directory_again:
  "cleanup_directory cfg t d' (fst (cleanup_directory cfg t d a)) = (fst (cleanup_directory cfg t d a), [])"
proof (cases a)
  case Missing
  then show ?thesis by (simp add: cleanup_directory_def)
next
  case (Dir l es)
  show ?thesis
  proof (cases l)
    case True
    obtain kept del where k: "cleanup_entries cfg t d es = (kept, del)"
      by (cases "cleanup_entries cfg t d es")
    from cleanup_entries_again [of cfg t d' d es] k
    have "cleanup_entries cfg t d' kept = (kept, [])" by simp
    with Dir True k show ?thesis by (simp add: cleanup_directory_def)
  next
    case False
    with Dir show ?thesis by (simp add: cleanup_directory_def)
  qed
qed

lemma cleanup_expired_files_world:
  "snd (cleanup_expired_files cfg w) =
     w\<lparr>uploads := fst (cleanup_directory cfg (now w) (UPLOAD_DIR cfg) (uploads w)),
       outputs := fst (cleanup_directory cfg (now w) (OUTPUT_DIR cfg) (outputs w))\<rparr>"
  by (simp add: cleanup_expired_files_def split: prod.splits)

lemma cleanup_expired_files_report:
  "fst (cleanup_expired_files cfg w) =
     \<lparr> timestamp = now w,
       deleted_uploads = length (snd (cleanup_directory cfg (now w) (UPLOAD_DIR cfg) (uploads w))),
       deleted_outputs = length (snd (cleanup_directory cfg (now w) (OUTPUT_DIR cfg) (outputs w))),
       total_deleted = length (snd (cleanup_directory cfg (now w) (UPLOAD_DIR cfg) (uploads w)))
                     + length (snd (cleanup_directory cfg (now w) (OUTPUT_DIR cfg) (outputs w))),
       upload_files = snd (cleanup_directory cfg (now w) (UPLOAD_DIR cfg) (uploads w)),
       output_files = snd (cleanup_directory cfg (now w) (OUTPUT_DIR cfg) (outputs w)) \<rparr>"
  by (simp add: cleanup_expired_files_def split: prod.splits)






text \<open>
  C8. Whatever the two staging areas hold, a second sweep run on what the first one left,
  at the same clock reading, deletes nothing: all the counts of its report are zero and
  its lists of deleted paths are empty.
\<close>

theorem second_sweep_deletes_nothing:
  "deleted_uploads (fst (cleanup_expired_files cfg (snd (cleanup_expired_files cfg w)))) = 0 \<and>
   deleted_outputs (fst (cleanup_expired_files cfg (snd (cleanup_expired_files cfg w)))) = 0 \<and>
   total_deleted (fst (cleanup_expired_files cfg (snd (cleanup_expired_files cfg w)))) = 0 \<and>
   upload_files (fst (cleanup_expired_files cfg (snd (cleanup_expired_files cfg w)))) = [] \<and>
   output_files (fst (cleanup_expired_files cfg (snd (cleanup_expired_files cfg w)))) = []"
  by (simp add: cleanup_expired_files_report cleanup_expired_files_world cleanup_directory_again)

theorem second_sweep_deletes_nothing_witness:
  "total_deleted (fst (cleanup_expired_files default_config world_old)) = 1 \<and>
   total_deleted (fst (cleanup_expired_files default_config (snd (cleanup_expired_files default_config world_old)))) = 0"
proof -
  have "total_deleted (fst (cleanup_expired_files default_config world_old)) = 1" by code_simp
  with second_sweep_deletes_nothing [of default_config world_old] show ?thesis by simp
qed

lemma cleanup_expired_files_now [simp]:
  "now (snd (cleanup_expired_files cfg w)) = now w"
  by (simp add: cleanup_expired_files_world)

lemma cleanup_expired_files_timestamp [simp]:
  "timestamp (fst (cleanup_expired_files cfg w)) = now w"
  by (simp add: cleanup_expired_files_report)

lemma cleanup_loop_quiet_pass:
  assumes "ENABLE_CLEANUP cfg" and "quiet p"
  shows "cleanup_loop cfg (p # ps) w =
     (Swept (fst (cleanup_expired_files cfg w)) # Slept (CLEANUP_INTERVAL_MINUTES cfg * 60)
        # fst (cleanup_loop cfg ps (sleep (CLEANUP_INTERVAL_MINUTES cfg * 60) (snd (cleanup_expired_files cfg w)))),
      snd (cleanup_loop cfg ps (sleep (CLEANUP_INTERVAL_MINUTES cfg * 60) (snd (cleanup_expired_files cfg w)))))"
  using assms by (simp add: quiet_def sweep_pass_def split: prod.splits)

lemma quiet_sweep_times:
  assumes "ENABLE_CLEANUP cfg" and "0 < CLEANUP_INTERVAL_MINUTES cfg" and "list_all quiet ps"
  shows "sweep_times (fst (cleanup_loop cfg ps w)) =
     map (\<lambda>k. now w + int k * seconds (CLEANUP_INTERVAL_MINUTES cfg * 60)) [0..<length ps]"
  using assms(3)
proof (induction ps arbitrary: w)
  case Nil
  show ?case by simp
next
  case (Cons p ps)
  let ?i = "CLEANUP_INTERVAL_MINUTES cfg * 60"
  let ?w = "sleep ?i (snd (cleanup_expired_files cfg w))"
  from Cons.prems have p: "quiet p" and ps: "list_all quiet ps" by simp_all
  have nw: "now ?w = now w + seconds ?i"
    using assms(2) by (simp add: sleep_def max_def)
  have "sweep_times (fst (cleanup_loop cfg (p # ps) w)) = now w # sweep_times (fst (cleanup_loop cfg ps ?w))"
    by (simp add: cleanup_loop_quiet_pass [OF assms(1) p] del: cleanup_loop.simps)
  also have "sweep_times (fst (cleanup_loop cfg ps ?w)) =
     map (\<lambda>k. now ?w + int k * seconds ?i) [0..<length ps]"
    by (rule Cons.IH [OF ps])
  also have "now w # map (\<lambda>k. now ?w + int k * seconds ?i) [0..<length ps] =
     map (\<lambda>k. now w + int k * seconds ?i) [0..<length (p # ps)]"
  proof -
    have "[0..<length (p # ps)] = 0 # map Suc [0..<length ps]"
      by (simp add: upt_conv_Cons map_Suc_upt del: upt_Suc)
    then show ?thesis by (simp add: nw algebra_simps)
  qed
  finally show ?case .
qed

lemma quiet_then_stopped:
  assumes "ENABLE_CLEANUP cfg" and "list_all quiet ps" and "\<not> running p"
  shows "cleanup_loop cfg (ps @ p # ps') w = cleanup_loop cfg ps w"
  using assms(2)
proof (induction ps arbitrary: w)
  case Nil
  from assms(3) show ?case by simp
next
  case (Cons q ps)
  from Cons.prems have q: "quiet q" and ps: "list_all quiet ps" by simp_all
  show ?case
    using Cons.IH [OF ps] by (simp add: cleanup_loop_quiet_pass [OF assms(1) q] del: cleanup_loop.simps)
qed

text \<open>
  C4, as the claim states it, fails: once started, the loop sweeps first and sleeps
  afterwards. Started two hours after an upload was written, with the default interval
  of thirty minutes and expiry of one hour, its first pass deletes that upload at the
  clock reading it was started at, and only then sleeps 1800 seconds; the second sweep
  follows one interval later.
\<close>

theorem first_sweep_runs_at_start:
  "is_running (start_cleanup_service default_config new_sweeper) \<and>
   now world_old = 7200000000 \<and>
   fst (cleanup_loop default_config [quiet_pass] world_old) =
     [Swept \<lparr> timestamp = 7200000000, deleted_uploads = 1, deleted_outputs = 0, total_deleted = 1,
              upload_files = [''uploads/old.docx''], output_files = [] \<rparr>,
      Slept 1800] \<and>
   sweep_times (fst (cleanup_loop default_config [quiet_pass, quiet_pass] world_old)) =
     [7200000000, 9000000000]"
  by code_simp

text \<open>
  C4, amended. With cleanup enabled and a positive interval, starting the sweeper sets it
  running, and while the passes go undisturbed the sweeps happen at the clock reading of
  the start and then one interval after each other: sweep number \<open>k\<close>, counted from
  zero, reads the clock at the start time plus \<open>k\<close> intervals. A pass that finds the
  service stopped ends the loop with no further sweep.
\<close>

theorem sweeps_start_at_once_and_repeat:
  assumes "ENABLE_CLEANUP cfg" and "0 < CLEANUP_INTERVAL_MINUTES cfg" and "list_all quiet ps"
  shows "is_running (start_cleanup_service cfg new_sweeper) \<and>
     sweep_times (fst (cleanup_loop cfg ps w)) =
       map (\<lambda>k. now w + int k * seconds (CLEANUP_INTERVAL_MINUTES cfg * 60)) [0..<length ps] \<and>
     (\<forall>p ps'. \<not> running p \<longrightarrow> cleanup_loop cfg (ps @ p # ps') w = cleanup_loop cfg ps w)"
proof -
  have "is_running (start_cleanup_service cfg new_sweeper)"
    using assms(1) by (simp add: start_cleanup_service_def new_sweeper_def)
  moreover note quiet_sweep_times [OF assms]
  moreover have "\<forall>p ps'. \<not> running p \<longrightarrow> cleanup_loop cfg (ps @ p # ps') w = cleanup_loop cfg ps w"
    using quiet_then_stopped [OF assms(1,3)] by blast
  ultimately show ?thesis by blast
qed

theorem sweeps_start_at_once_and_repeat_witness:
  "sweep_times (fst (cleanup_loop default_config [quiet_pass, quiet_pass, quiet_pass] world_old)) =
     [7200000000, 9000000000, 10800000000] \<and>
   fst (cleanup_loop default_config ([quiet_pass, quiet_pass, quiet_pass] @ quiet_pass\<lparr>running := False\<rparr> # [quiet_pass]) world_old) =
     fst (cleanup_loop default_config [quiet_pass, quiet_pass, quiet_pass] world_old)"
proof -
  have a: "ENABLE_CLEANUP default_config" by (simp add: default_config_def)
  have b: "0 < CLEANUP_INTERVAL_MINUTES default_config" by (simp add: default_config_def)
  have c: "list_all quiet [quiet_pass, quiet_pass, quiet_pass]" by (simp add: quiet_def quiet_pass_def)
  have d: "map (\<lambda>k. now world_old + int k * seconds (CLEANUP_INTERVAL_MINUTES default_config * 60))
             [0..<length [quiet_pass, quiet_pass, quiet_pass]] = [7200000000, 9000000000, 10800000000]"
    by code_simp
  have e: "\<not> running (quiet_pass\<lparr>running := False\<rparr>)" by simp
  from sweeps_start_at_once_and_repeat [OF a b c, of world_old] d e
  show ?thesis by simp
qed

section \<open>Properties of the generated names\<close>

lemma takeWhile_all:
  assumes "c \<notin> set s"
  shows "takeWhile (\<lambda>x. x \<noteq> c) s = s"
  using assms by (induction s) auto

lemma takeWhile_stop:
  assumes "c \<notin> set xs"
  shows "takeWhile (\<lambda>x. x \<noteq> c) (xs @ c # ys) = xs"
  using assms by (induction xs) auto

lemma rfind_absent:
  assumes "c \<notin> set s"
  shows "rfind c s = None"
proof -
  have "c \<notin> set (rev s)" using assms by simp
  then have h: "takeWhile (\<lambda>x. x \<noteq> c) (rev s) = rev s" by (rule takeWhile_all)
  show ?thesis unfolding rfind_def Let_def h by simp
qed

lemma rfind_last_occurrence:
  assumes "c \<notin> set b"
  shows "rfind c (a @ c # b) = Some (length a)"
proof -
  have r: "rev (a @ c # b) = rev b @ c # rev a" by simp
  have "c \<notin> set (rev b)" using assms by simp
  then have h: "takeWhile (\<lambda>x. x \<noteq> c) (rev b @ c # rev a) = rev b" by (rule takeWhile_stop)
  show ?thesis unfolding rfind_def Let_def r h by simp
qed

text \<open>How \<open>stem\<close> and \<open>suffix\<close> cut a name, by where its last dot stands.\<close>

lemma name_without_dot:
  assumes "CHR ''.'' \<notin> set nm"
  shows "name_stem nm = nm" and "name_suffix nm = []"
  using assms by (simp_all add: name_stem_def name_suffix_def rfind_absent)

lemma name_leading_dot:
  assumes "CHR ''.'' \<notin> set b"
  shows "name_stem (CHR ''.'' # b) = CHR ''.'' # b" and "name_suffix (CHR ''.'' # b) = []"
  using rfind_last_occurrence [OF assms, of "[]"]
  by (simp_all add: name_stem_def name_suffix_def)

lemma name_inner_dot:
  assumes "CHR ''.'' \<notin> set b" and "a \<noteq> []" and "b \<noteq> []"
  shows "name_stem (a @ CHR ''.'' # b) = a" and "name_suffix (a @ CHR ''.'' # b) = CHR ''.'' # b"
  using rfind_last_occurrence [OF assms(1), of a] assms(2,3)
  by (simp_all add: name_stem_def name_suffix_def)

lemma name_trailing_dot:
  shows "name_stem (a @ ''.'') = a @ ''.''" and "name_suffix (a @ ''.'') = []"
  using rfind_last_occurrence [of "CHR ''.''" "[]" a]
  by (simp_all add: name_stem_def name_suffix_def)

lemma name_shapes:
  obtains "CHR ''.'' \<notin> set nm"
  | b where "nm = CHR ''.'' # b" and "CHR ''.'' \<notin> set b" and "b \<noteq> []"
  | a where "nm = a @ ''.''"
  | a b where "nm = a @ CHR ''.'' # b" and "CHR ''.'' \<notin> set b" and "a \<noteq> []" and "b \<noteq> []"
proof (cases "CHR ''.'' \<in> set nm")
  case False
  then show ?thesis by (rule that(1))
next
  case True
  then obtain a b where nm: "nm = a @ CHR ''.'' # b" and b: "CHR ''.'' \<notin> set b"
    by (meson split_list_last)
  show ?thesis
  proof (cases "b = []")
    case True
    with nm show ?thesis by (intro that(3) [of a]) simp
  next
    case False
    show ?thesis
    proof (cases "a = []")
      case True
      with nm b False show ?thesis by (intro that(2) [of b]) simp_all
    next
      case a: False
      from nm b a False show ?thesis by (rule that(4))
    qed
  qed
qed

text \<open>
  The stem of the staged name is the original stem, the separator and the token again,
  unless the original name ends with a dot.
\<close>

lemma stem_of_staged_name:
  assumes "CHR ''.'' \<notin> set tok" and "\<not> ends_with_dot nm"
  shows "name_stem (name_stem nm @ ''_'' @ tok @ name_suffix nm) = name_stem nm @ ''_'' @ tok"
proof (cases nm rule: name_shapes)
  case 1
  then have "CHR ''.'' \<notin> set (nm @ ''_'' @ tok)" using assms(1) by simp
  then have "name_stem (nm @ ''_'' @ tok) = nm @ ''_'' @ tok" by (rule name_without_dot)
  with 1 show ?thesis by (simp add: name_without_dot)
next
  case (2 b)
  then have "CHR ''.'' \<notin> set (b @ ''_'' @ tok)" using assms(1) by simp
  then have "name_stem (CHR ''.'' # (b @ ''_'' @ tok)) = CHR ''.'' # (b @ ''_'' @ tok)"
    by (rule name_leading_dot)
  with 2 show ?thesis by (simp add: name_leading_dot)
next
  case (3 a)
  with assms(2) show ?thesis by (simp add: ends_with_dot_def)
next
  case (4 a b)
  have "name_stem ((a @ ''_'' @ tok) @ CHR ''.'' # b) = a @ ''_'' @ tok"
    using 4 by (intro name_inner_dot) simp_all
  with 4 show ?thesis by (simp add: name_inner_dot)
qed

text \<open>Components of a path hold no separator; a plain name is its own last component.\<close>

lemma split_sep_components:
  "x \<in> set (split_sep s) \<Longrightarrow> CHR ''/'' \<notin> set x"
proof (induction s arbitrary: x)
  case Nil
  then show ?case by simp
next
  case (Cons c s)
  show ?case
  proof (cases "split_sep s")
    case Nil
    with Cons show ?thesis by (auto split: if_splits)
  next
    case (Cons p ps)
    with Cons.prems Cons.IH show ?thesis by (auto split: if_splits)
  qed
qed

lemma split_sep_plain:
  "CHR ''/'' \<notin> set s \<Longrightarrow> split_sep s = [s]"
  by (induction s) auto

lemma path_name_no_sep:
  "CHR ''/'' \<notin> set (path_name p)"
proof (cases "filter (\<lambda>x. x \<noteq> [] \<and> x \<noteq> ''.'') (split_sep p)")
  case Nil
  then show ?thesis by (simp add: path_name_def)
next
  case (Cons q qs)
  have "last (q # qs) \<in> set (q # qs)" by (rule last_in_set) simp
  with Cons have "last (q # qs) \<in> set (split_sep p)"
    by (metis filter_is_subset subsetD)
  then have "CHR ''/'' \<notin> set (last (q # qs))" by (rule split_sep_components)
  with Cons show ?thesis by (simp add: path_name_def)
qed

lemma path_name_plain:
  assumes "CHR ''/'' \<notin> set u" and "u \<noteq> []" and "u \<noteq> ''.''"
  shows "path_name u = u"
  using assms by (simp add: path_name_def split_sep_plain)

lemma stem_suffix_no_sep:
  "CHR ''/'' \<notin> set (path_stem p)" "CHR ''/'' \<notin> set (path_suffix p)"
proof -
  have "set (name_stem (path_name p)) \<subseteq> set (path_name p)"
    by (auto simp: name_stem_def split: option.splits dest: in_set_takeD)
  moreover have "set (name_suffix (path_name p)) \<subseteq> set (path_name p)"
    by (auto simp: name_suffix_def split: option.splits if_splits dest: in_set_dropD)
  ultimately show "CHR ''/'' \<notin> set (path_stem p)" "CHR ''/'' \<notin> set (path_suffix p)"
    using path_name_no_sep [of p] by (auto simp: path_stem_def path_suffix_def)
qed

lemma uuid_str_chars:
  assumes "uuid_str u"
  shows "CHR ''.'' \<notin> set u" and "CHR ''/'' \<notin> set u"
proof -
  from assms have hex: "\<forall>c\<in>set u. c \<in> set ''0123456789abcdef-''"
    unfolding uuid_str_def list_all_iff by (rule conjunct2)
  have "CHR ''.'' \<notin> set ''0123456789abcdef-''" by simp
  with hex show "CHR ''.'' \<notin> set u" by blast
  have "CHR ''/'' \<notin> set ''0123456789abcdef-''" by simp
  with hex show "CHR ''/'' \<notin> set u" by blast
qed

text \<open>A name that passes the extension check of the handlers does not end with a dot.\<close>

lemma allowed_extension_no_trailing_dot:
  assumes "lower (path_suffix fname) \<in> set allowed_extensions"
  shows "\<not> ends_with_dot (path_name fname)"
proof
  assume "ends_with_dot (path_name fname)"
  then have "path_name fname = butlast (path_name fname) @ ''.''"
    by (simp add: ends_with_dot_def) (metis append_butlast_last_id)
  then have "name_suffix (path_name fname) = []"
    by (metis name_trailing_dot(2))
  then have "path_suffix fname = []" by (simp add: path_suffix_def)
  with assms show False by (simp add: lower_def allowed_extensions_def)
qed

text \<open>
  For a name that does not end with a dot, the staged name and the predicted output name
  are built from the same stem and token.
\<close>

lemma names_without_trailing_dot:
  assumes "uuid_str (unique_id att)" and "\<not> ends_with_dot (path_name fname)"
  shows "predicted_output_name att fname = path_stem fname @ ''_'' @ unique_id att @ ''.pdf''"
proof -
  let ?u = "path_stem fname @ ''_'' @ unique_id att @ path_suffix fname"
  have "CHR ''/'' \<notin> set ?u"
    using stem_suffix_no_sep [of fname] uuid_str_chars(2) [OF assms(1)] by simp
  moreover have "?u \<noteq> []" by simp
  moreover have "?u \<noteq> ''.''"
  proof
    assume "?u = ''.''"
    then have "set ?u = set ''.''" by simp
    then show False by auto
  qed
  ultimately have "path_name ?u = ?u" by (rule path_name_plain)
  then have "path_stem ?u = name_stem ?u" by (simp add: path_stem_def)
  also have "\<dots> = path_stem fname @ ''_'' @ unique_id att"
    unfolding path_stem_def path_suffix_def
    by (rule stem_of_staged_name [OF uuid_str_chars(1) [OF assms(1)] assms(2)])
  finally show ?thesis
    by (simp add: predicted_output_name_def generate_unique_filename_def)
qed

text \<open>
  C9. For every original file name that passes the extension check of the handlers,
  which are the names the invoker is called with, and a token as \<open>uuid4\<close> prints it, the
  staged name is exactly the original stem, the separator \<open>_\<close>, the token and the
  original extension, and the predicted output name is the same stem, separator and
  token with the extension \<open>.pdf\<close>: it is computed from the input name alone.
\<close>

theorem staged_and_predicted_names:
  assumes "uuid_str (unique_id att)"
    and "lower (path_suffix fname) \<in> set allowed_extensions"
  shows "generate_unique_filename (unique_id att) fname (path_suffix fname) =
           path_stem fname @ ''_'' @ unique_id att @ path_suffix fname \<and>
         predicted_output_name att fname = path_stem fname @ ''_'' @ unique_id att @ ''.pdf''"
proof -
  from assms(2) have "\<not> ends_with_dot (path_name fname)"
    by (rule allowed_extension_no_trailing_dot)
  with assms(1) have "predicted_output_name att fname = path_stem fname @ ''_'' @ unique_id att @ ''.pdf''"
    by (rule names_without_trailing_dot)
  then show ?thesis by (simp add: generate_unique_filename_def)
qed

theorem staged_and_predicted_names_witness:
  "generate_unique_filename (unique_id attempt_ok) ''dir/Annual.Report.DOCX''
       (path_suffix ''dir/Annual.Report.DOCX'') =
     ''Annual.Report_3f2b8c1e-5d4a-4c7b-9e6f-0a1b2c3d4e5f.DOCX'' \<and>
   predicted_output_name attempt_ok ''dir/Annual.Report.DOCX'' =
     ''Annual.Report_3f2b8c1e-5d4a-4c7b-9e6f-0a1b2c3d4e5f.pdf''"
proof -
  have a: "uuid_str (unique_id attempt_ok)" by code_simp
  have b: "lower (path_suffix ''dir/Annual.Report.DOCX'') \<in> set allowed_extensions" by code_simp
  have c: "path_stem ''dir/Annual.Report.DOCX'' = ''Annual.Report''" by code_simp
  have d: "path_suffix ''dir/Annual.Report.DOCX'' = ''.DOCX''" by code_simp
  have e: "unique_id attempt_ok = ''3f2b8c1e-5d4a-4c7b-9e6f-0a1b2c3d4e5f''" by code_simp
  from staged_and_predicted_names [OF a b] show ?thesis
    unfolding c d e by simp
qed

section \<open>Properties of the job registry over a run\<close>

text \<open>
  What each handler does to \<open>async_tasks\<close> and to the waiting background tasks: the
  immediate path and the cleanup leave both alone, a deferred submission either is
  rejected or registers one processing job and adds its task, and the background task of
  a registered job overwrites that job's entry with a completed or failed one.
\<close>

lemma convert_sync_registry:
  "async_tasks (snd (convert_sync cfg att fname bs a)) = async_tasks a"
  "background_tasks (snd (convert_sync cfg att fname bs a)) = background_tasks a"
  unfolding convert_sync_def Let_def
  by (simp_all split: prod.splits sum.splits)

lemma manual_cleanup_registry:
  "async_tasks (snd (manual_cleanup cfg a)) = async_tasks a"
  "background_tasks (snd (manual_cleanup cfg a)) = background_tasks a"
  unfolding manual_cleanup_def by (simp_all split: prod.splits)

lemma convert_async_effect:
  "snd (convert_async cfg tid fname bs a) = a \<or>
   snd (convert_async cfg tid fname bs a) =
     a\<lparr>async_tasks := (async_tasks a)(tid \<mapsto>
           \<lparr> status = Processing, message = ''Conversion in progress'', filename = None,
             created_at = now (fs a) \<rparr>),
       background_tasks := background_tasks a @ [(tid, bs, fname)]\<rparr>"
  unfolding convert_async_def Let_def by simp

lemma process_async_conversion_present:
  assumes "async_tasks a tid = Some j"
  shows "\<exists>w' st msg fn. (st = Completed \<or> st = Failed) \<and>
     process_async_conversion cfg att tid bs fname a =
       (Inr (), a\<lparr>fs := w', async_tasks := (async_tasks a)(tid \<mapsto>
           \<lparr> status = st, message = msg, filename = fn, created_at = created_at j \<rparr>)\<rparr>)"
proof -
  obtain r w' where c: "convert_to_pdf_async cfg att bs fname (fs a) = (r, w')"
    by (cases "convert_to_pdf_async cfg att bs fname (fs a)")
  from convert_to_pdf_async_cases [OF c] obtain ok msg out where r: "r = Inr (ok, msg, out)"
    by blast
  show ?thesis
  proof (cases ok)
    case True
    have "process_async_conversion cfg att tid bs fname a =
       (Inr (), a\<lparr>fs := w', async_tasks := (async_tasks a)(tid \<mapsto>
           \<lparr> status = Completed, message = msg, filename = out, created_at = created_at j \<rparr>)\<rparr>)"
      unfolding process_async_conversion_def process_async_conversion_try_def set_task_def Let_def
      using assms True by (simp add: c r)
    then show ?thesis by blast
  next
    case False
    have "process_async_conversion cfg att tid bs fname a =
       (Inr (), a\<lparr>fs := w', async_tasks := (async_tasks a)(tid \<mapsto>
           \<lparr> status = Failed, message = msg, filename = None, created_at = created_at j \<rparr>)\<rparr>)"
      unfolding process_async_conversion_def process_async_conversion_try_def set_task_def Let_def
      using assms False by (simp add: c r)
    then show ?thesis by blast
  qed
qed

lemma pending_found:
  "pending tid bg = Some (t, c, f) \<Longrightarrow> t = tid \<and> (t, c, f) \<in> set bg"
  by (induction bg) (auto split: if_splits)

lemma remove1_keys_subset:
  "fst ` set (remove1 x xs) \<subseteq> fst ` set xs"
  using set_remove1_subset [of x xs] by blast

lemma remove1_distinct_keys:
  "distinct (map fst xs) \<Longrightarrow> distinct (map fst (remove1 x xs))"
proof (induction xs)
  case Nil
  show ?case by simp
next
  case (Cons y ys)
  from Cons.prems have y: "fst y \<notin> fst ` set ys" and ys: "distinct (map fst ys)" by simp_all
  show ?case
  proof (cases "x = y")
    case True
    with ys show ?thesis by simp
  next
    case False
    from y remove1_keys_subset [of x ys] have "fst y \<notin> fst ` set (remove1 x ys)" by blast
    with False Cons.IH [OF ys] show ?thesis by simp
  qed
qed

lemma remove1_key_gone:
  "distinct (map fst xs) \<Longrightarrow> (t, v) \<in> set xs \<Longrightarrow> t \<notin> fst ` set (remove1 (t, v) xs)"
  by (induction xs) (auto simp: rev_image_eqI)


text \<open>Every event keeps the application consistent and moves each job's status in an allowed way.\<close>

lemma job_status_same:
  "async_tasks a' = async_tasks a \<Longrightarrow> job_status a' t = job_status a t"
  by (simp add: job_status_def)

lemma consistent_same_registry:
  assumes "consistent a (e # es)" and "drawn_ids (e # es) = drawn_ids es"
    and "async_tasks a' = async_tasks a" and "background_tasks a' = background_tasks a"
  shows "consistent a' es \<and> (\<forall>tid. allowed_move (job_status a tid) (job_status a' tid))"
  using assms by (simp add: consistent_def job_status_def allowed_move_def)

lemma step_convert_async:
  assumes "consistent a (ConvertAsync fname bs t # es)"
  shows "consistent (step cfg (ConvertAsync fname bs t) a) es \<and>
     (\<forall>tid. allowed_move (job_status a tid) (job_status (step cfg (ConvertAsync fname bs t) a) tid))"
proof -
  let ?bg = "background_tasks a"
  from assms have keys: "distinct (map fst ?bg)"
    and proc: "\<forall>k \<in> fst ` set ?bg. job_status a k = Some Processing"
    and t_new: "t \<notin> set (drawn_ids es)" and ids: "distinct (drawn_ids es)"
    and t_free: "t \<notin> dom (async_tasks a)"
    and free: "set (drawn_ids es) \<inter> dom (async_tasks a) = {}"
    by (auto simp: consistent_def)
  from t_free have none: "job_status a t = None" by (auto simp: job_status_def)
  with proc have t_key: "t \<notin> fst ` set ?bg" by force
  let ?j = "\<lparr> status = Processing, message = ''Conversion in progress'', filename = None,
             created_at = now (fs a) \<rparr>"
  let ?a = "a\<lparr>async_tasks := (async_tasks a)(t \<mapsto> ?j),
             background_tasks := ?bg @ [(t, bs, fname)]\<rparr>"
  from convert_async_effect [of cfg t fname bs a]
  have "step cfg (ConvertAsync fname bs t) a = a \<or> step cfg (ConvertAsync fname bs t) a = ?a"
    by simp
  then show ?thesis
  proof
    assume same: "step cfg (ConvertAsync fname bs t) a = a"
    have "consistent a es"
      using keys proc ids free by (simp add: consistent_def)
    with same show ?thesis by (simp add: allowed_move_def)
  next
    assume acc: "step cfg (ConvertAsync fname bs t) a = ?a"
    have st: "\<And>k. job_status ?a k = (if k = t then Some Processing else job_status a k)"
      by (simp add: job_status_def)
    have c1: "distinct (map fst (background_tasks ?a))"
      using keys t_key by simp
    have c2: "\<forall>k \<in> fst ` set (background_tasks ?a). job_status ?a k = Some Processing"
      using proc by (auto simp: st)
    have c3: "set (drawn_ids es) \<inter> dom (async_tasks ?a) = {}"
      using free t_new by auto
    have moves: "\<forall>tid. allowed_move (job_status a tid) (job_status ?a tid)"
      using none by (simp add: st allowed_move_def)
    from c1 c2 c3 ids have "consistent ?a es" unfolding consistent_def by blast
    with moves acc show ?thesis by simp
  qed
qed

lemma step_run_background:
  assumes "consistent a (RunBackground t att # es)"
  shows "consistent (step cfg (RunBackground t att) a) es \<and>
     (\<forall>tid. allowed_move (job_status a tid) (job_status (step cfg (RunBackground t att) a) tid))"
proof (cases "pending t (background_tasks a)")
  case None
  then have "step cfg (RunBackground t att) a = a" by simp
  moreover from assms have "consistent a es" by (simp add: consistent_def)
  ultimately show ?thesis by (simp add: allowed_move_def)
next
  case (Some x)
  obtain k c f where x: "x = (k, c, f)" by (cases x)
  let ?bg = "background_tasks a"
  from pending_found [of t ?bg k c f] Some x have k: "k = t" and mem: "(t, c, f) \<in> set ?bg"
    by auto
  from assms have keys: "distinct (map fst ?bg)"
    and proc: "\<forall>k \<in> fst ` set ?bg. job_status a k = Some Processing"
    and ids: "distinct (drawn_ids es)"
    and free: "set (drawn_ids es) \<inter> dom (async_tasks a) = {}"
    by (auto simp: consistent_def)
  from mem have "t \<in> fst ` set ?bg" by force
  with proc have pt: "job_status a t = Some Processing" by blast
  then obtain j where j: "async_tasks a t = Some j" by (auto simp: job_status_def)
  let ?a1 = "a\<lparr>background_tasks := remove1 (t, c, f) ?bg\<rparr>"
  from j have "async_tasks ?a1 t = Some j" by simp
  from process_async_conversion_present [OF this, of cfg att c f]
  obtain w' st msg fn where st: "st = Completed \<or> st = Failed"
    and run: "process_async_conversion cfg att t c f ?a1 =
       (Inr (), ?a1\<lparr>fs := w', async_tasks := (async_tasks ?a1)(t \<mapsto>
           \<lparr> status = st, message = msg, filename = fn, created_at = created_at j \<rparr>)\<rparr>)"
    by blast
  let ?a2 = "?a1\<lparr>fs := w', async_tasks := (async_tasks ?a1)(t \<mapsto>
           \<lparr> status = st, message = msg, filename = fn, created_at = created_at j \<rparr>)\<rparr>"
  have step: "step cfg (RunBackground t att) a = ?a2"
    using Some x k run by simp
  have js: "\<And>k. job_status ?a2 k = (if k = t then Some st else job_status a k)"
    by (simp add: job_status_def)
  have c1: "distinct (map fst (background_tasks ?a2))"
    using remove1_distinct_keys [OF keys] by simp
  have gone: "t \<notin> fst ` set (remove1 (t, c, f) ?bg)"
    using remove1_key_gone [OF keys mem] .
  have c2: "\<forall>k \<in> fst ` set (background_tasks ?a2). job_status ?a2 k = Some Processing"
  proof
    fix k assume "k \<in> fst ` set (background_tasks ?a2)"
    then have in1: "k \<in> fst ` set (remove1 (t, c, f) ?bg)" by simp
    with gone have "k \<noteq> t" by blast
    moreover from in1 remove1_keys_subset [of "(t, c, f)" ?bg] have "k \<in> fst ` set ?bg" by blast
    ultimately show "job_status ?a2 k = Some Processing" using proc js [of k] by auto
  qed
  have "dom (async_tasks ?a2) = dom (async_tasks a)" using j by auto
  with free have c3: "set (drawn_ids es) \<inter> dom (async_tasks ?a2) = {}" by simp
  have moves: "\<forall>tid. allowed_move (job_status a tid) (job_status ?a2 tid)"
  proof
    fix tid
    show "allowed_move (job_status a tid) (job_status ?a2 tid)"
      using pt st js [of tid] by (auto simp: allowed_move_def)
  qed
  from c1 c2 c3 ids have "consistent ?a2 es" unfolding consistent_def by blast
  with moves step show ?thesis by simp
qed

lemma step_consistent:
  assumes "consistent a (e # es)"
  shows "consistent (step cfg e a) es \<and>
     (\<forall>tid. allowed_move (job_status a tid) (job_status (step cfg e a) tid))"
proof (cases e)
  case (ConvertSync fname bs att)
  with assms show ?thesis
    by (intro consistent_same_registry [of a e es]) (simp_all add: convert_sync_registry)
next
  case (ConvertAsync fname bs t)
  with assms show ?thesis using step_convert_async by simp
next
  case (RunBackground t att)
  with assms show ?thesis using step_run_background by simp
next
  case (GetTaskStatus t)
  with assms show ?thesis
    by (intro consistent_same_registry [of a e es]) simp_all
next
  case ManualCleanup
  with assms show ?thesis
    by (intro consistent_same_registry [of a e es]) (simp_all add: manual_cleanup_registry)
qed


text \<open>Hence the statuses along a run form a chain of allowed moves, and such a chain is a lifecycle.\<close>

lemma history_shape:
  "\<exists>rest. history cfg tid a evs = job_status a tid # rest"
  by (cases evs) simp_all

lemma history_moves:
  "consistent a evs \<Longrightarrow> successively allowed_move (history cfg tid a evs)"
proof (induction evs arbitrary: a)
  case Nil
  show ?case by simp
next
  case (Cons e es)
  from step_consistent [OF Cons.prems, of cfg]
  have c: "consistent (step cfg e a) es"
    and m: "allowed_move (job_status a tid) (job_status (step cfg e a) tid)"
    by simp_all
  from history_shape obtain rest where
    h: "history cfg tid (step cfg e a) es = job_status (step cfg e a) tid # rest" by blast
  from Cons.IH [OF c] m show ?case by (simp add: h)
qed

lemma moves_lifecycle:
  "successively allowed_move (x # xs) \<Longrightarrow> remdups_adj (x # xs) \<in> lifecycles x"
proof (induction xs arbitrary: x)
  case Nil
  show ?case by (cases x rule: lifecycles.cases) simp_all
next
  case (Cons y ys)
  from Cons.prems have m: "allowed_move x y" and rest: "successively allowed_move (y # ys)"
    by simp_all
  from Cons.IH [OF rest] have ih: "remdups_adj (y # ys) \<in> lifecycles y" .
  from m consider "x = y" | "x = None" "y = Some Processing"
    | "x = Some Processing" "y = Some Completed" | "x = Some Processing" "y = Some Failed"
    unfolding allowed_move_def by blast
  then show ?case
  proof cases
    case 1
    with ih show ?thesis by simp
  next
    case 2
    with ih show ?thesis by auto
  next
    case 3
    with ih show ?thesis by auto
  next
    case 4
    with ih show ?thesis by auto
  qed
qed

lemma initial_app_consistent:
  "distinct (drawn_ids evs) \<Longrightarrow> consistent initial_app evs"
  by (simp add: consistent_def initial_app_def)

text \<open>
  C2. In every run of the application in which each submission draws an identifier of
  its own, the statuses a job identifier goes through, repetitions left out, are: not
  registered, then Processing from the submission on, then at most one of Completed and
  Failed, and nothing after that. A job is never moved back to Processing, and a
  Completed or Failed job never changes its status again.
\<close>

theorem job_status_moves_once:
  assumes "distinct (drawn_ids evs)"
  shows "remdups_adj (history cfg tid initial_app evs) \<in>
     {[None], [None, Some Processing], [None, Some Processing, Some Completed],
      [None, Some Processing, Some Failed]}"
proof -
  from history_shape obtain rest where
    h: "history cfg tid initial_app evs = job_status initial_app tid # rest" by blast
  have n: "job_status initial_app tid = None" by (simp add: job_status_def initial_app_def)
  from history_moves [OF initial_app_consistent [OF assms], of cfg tid]
  have "successively allowed_move (None # rest)" by (simp add: h n)
  then have "remdups_adj (None # rest) \<in> lifecycles None" by (rule moves_lifecycle)
  then show ?thesis by (simp add: h n)
qed

theorem job_status_moves_once_witness:
  "distinct (drawn_ids example_run) \<and>
   remdups_adj (history default_config ''job-1'' initial_app example_run) =
     [None, Some Processing, Some Completed] \<and>
   remdups_adj (history default_config ''job-2'' initial_app example_run) =
     [None, Some Processing, Some Failed]"
proof -
  have d: "distinct (drawn_ids example_run)" by code_simp
  have h1: "remdups_adj (history default_config ''job-1'' initial_app example_run) =
     [None, Some Processing, Some Completed]" by code_simp
  have h2: "remdups_adj (history default_config ''job-2'' initial_app example_run) =
     [None, Some Processing, Some Failed]" by code_simp
  from job_status_moves_once [OF d, of default_config "''job-1''"] d h1 h2
  show ?thesis by simp
qed

end
